theory Spec2Isabelle
  imports Main "HOL-Library.Word"
begin

unbundle bit_operations_syntax

section \<open>The wipe engine of wipeEngine.c\<close>

text \<open>
  A shallow embedding of \<^verbatim>\<open>src/wipingEngine/wipeEngine.c\<close> (the POSIX branch of the
  platform conditionals): the pattern buffers, \<^verbatim>\<open>get_pattern_buffer\<close>,
  \<^verbatim>\<open>overwrite_pass_simd\<close>, \<^verbatim>\<open>wipe_file\<close>, \<^verbatim>\<open>wipe_disk_raw\<close> and the dispatch
  logic of \<^verbatim>\<open>wipe_folder_recursive\<close>.

  The C functions act on the file system and on global buffers. The model threads a
  \<open>world\<close> record through them and keeps what the platform decides (whether a call of
  the write primitive transfers everything, what \<^verbatim>\<open>rand()\<close> returns, whether a path can
  be opened or removed, whether \<^verbatim>\<open>char\<close> is signed) in an \<open>env\<close> record that the
  functions only read. Every call of a platform primitive is appended to a trace, so that
  the order of the calls can be stated.
\<close>

subsection \<open>Constants\<close>

type_synonym byte = "8 word"

text \<open>A buffer is read by index; the indices below \<open>BUFFER_SIZE\<close> are the allocated ones.\<close>

type_synonym buffer = "nat \<Rightarrow> byte"

definition BUFFER_SIZE :: nat where
  "BUFFER_SIZE = 268435456"

definition MAX_THREADS :: nat where
  "MAX_THREADS = 64"

definition MAX_PATH :: nat where
  "MAX_PATH = 260"

subsection \<open>Environment, state and trace\<close>

datatype event =
    Pass int int byte   \<comment> \<open>the header line of a pass: pass number, total passes, pattern\<close>
  | Seek0               \<comment> \<open>\<^verbatim>\<open>rewind(f)\<close> or \<^verbatim>\<open>lseek(fd, 0, SEEK_SET)\<close>\<close>
  | Write nat           \<comment> \<open>one call of \<^verbatim>\<open>fwrite\<close> or \<^verbatim>\<open>write\<close>, with the requested length\<close>
  | Fflush              \<comment> \<open>\<^verbatim>\<open>fflush(f)\<close>\<close>
  | Fsync               \<comment> \<open>\<^verbatim>\<open>fsync(fileno(f))\<close>\<close>
  | Fclose              \<comment> \<open>\<^verbatim>\<open>fclose(f)\<close>\<close>
  | CloseFd int         \<comment> \<open>\<^verbatim>\<open>close(fd)\<close>\<close>
  | Remove string       \<comment> \<open>\<^verbatim>\<open>remove(filepath)\<close>\<close>

record env =
  char_signed :: bool
    \<comment> \<open>whether plain \<^verbatim>\<open>char\<close> is signed (it is on x86 with GCC, Clang and MSVC)\<close>
  write_result :: "nat \<Rightarrow> nat option"
    \<comment> \<open>the k-th call of the write primitive: \<open>None\<close> is an error, \<open>Some m\<close> transfers
        at most \<open>m\<close> bytes\<close>
  rand_result :: "nat \<Rightarrow> int"
    \<comment> \<open>the k-th result of \<^verbatim>\<open>rand()\<close>\<close>
  fopen_ok :: "string \<Rightarrow> bool"
  remove_ok :: "string \<Rightarrow> bool"
  open_result :: "string \<Rightarrow> int"
    \<comment> \<open>what \<^verbatim>\<open>open(path, O_WRONLY)\<close> returns: a descriptor, or a negative value\<close>
  blkgetsize64 :: "string \<Rightarrow> nat option"
    \<comment> \<open>the \<^verbatim>\<open>BLKGETSIZE64\<close> ioctl: \<open>None\<close> when it fails\<close>

record world =
  data :: "string \<rightharpoonup> byte list"   \<comment> \<open>contents of the files and device nodes, by path\<close>
  fdtab :: "int \<rightharpoonup> string"        \<comment> \<open>open descriptors\<close>
  pos :: nat                       \<comment> \<open>position of the open stream or descriptor\<close>
  g_zero_buffer :: "buffer option" \<comment> \<open>\<open>None\<close> is \<^verbatim>\<open>NULL\<close>\<close>
  g_ff_buffer :: "buffer option"
  g_aa_buffer :: "buffer option"
  g_55_buffer :: "buffer option"
  g_random_buffer :: "buffer option"
  nwrites :: nat                   \<comment> \<open>calls of the write primitive so far\<close>
  nrands :: nat                    \<comment> \<open>calls of \<^verbatim>\<open>rand()\<close> so far\<close>
  trace :: "event list"

definition log :: "event \<Rightarrow> world \<Rightarrow> world" where
  "log ev w = w\<lparr>trace := trace w @ [ev]\<rparr>"

subsection \<open>Pattern buffers\<close>

text \<open>
  \<^verbatim>\<open>init_buffers\<close>: allocates the buffers when \<^verbatim>\<open>g_zero_buffer\<close> is \<^verbatim>\<open>NULL\<close> (the
  allocations are taken to succeed), fills the four fixed patterns, and copies
  \<open>BUFFER_SIZE / 4\<close> results of \<^verbatim>\<open>rand()\<close>, four bytes each and least significant byte
  first, into the random buffer.
\<close>

definition init_buffers :: "env \<Rightarrow> world \<Rightarrow> world" where
  "init_buffers e w =
     (if g_zero_buffer w = None then
        w\<lparr>g_zero_buffer := Some (\<lambda>i. 0x00),
          g_ff_buffer := Some (\<lambda>i. 0xFF),
          g_aa_buffer := Some (\<lambda>i. 0xAA),
          g_55_buffer := Some (\<lambda>i. 0x55),
          g_random_buffer := Some (\<lambda>i. ucast (drop_bit (8 * (i mod 4))
             (word_of_int (rand_result e (nrands w + i div 4)) :: 32 word))),
          nrands := nrands w + BUFFER_SIZE div 4\<rparr>
      else w)"

text \<open>
  The \<^verbatim>\<open>switch (pattern)\<close> of \<^verbatim>\<open>get_pattern_buffer\<close> compares the \<^verbatim>\<open>char\<close> after
  integer promotion, which depends on the signedness of \<^verbatim>\<open>char\<close>, with the case
  labels \<open>0x00\<close>, \<open>0xFF\<close>, \<open>0xAA\<close>, \<open>0x55\<close> and \<open>'R'\<close> (82).
\<close>

definition promote :: "env \<Rightarrow> byte \<Rightarrow> int" where
  "promote e c = (if char_signed e then sint c else uint c)"

definition get_pattern_buffer :: "env \<Rightarrow> world \<Rightarrow> byte \<Rightarrow> buffer option" where
  "get_pattern_buffer e w pattern =
     (let c = promote e pattern in
      if c = 0x00 then g_zero_buffer w
      else if c = 0xFF then g_ff_buffer w
      else if c = 0xAA then g_aa_buffer w
      else if c = 0x55 then g_55_buffer w
      else if c = 82 then g_random_buffer w
      else g_zero_buffer w)"

subsection \<open>The platform primitives\<close>

text \<open>
  The object a pass writes to: the stream \<open>f\<close> when it is not \<^verbatim>\<open>NULL\<close>, the
  descriptor \<open>fd\<close> otherwise. A stream is named by the path it was opened on.
\<close>

definition target :: "world \<Rightarrow> int \<Rightarrow> string option \<Rightarrow> string option" where
  "target w fd f = (case f of Some p \<Rightarrow> Some p | None \<Rightarrow> fdtab w fd)"

text \<open>Storing \<open>bs\<close> at offset \<open>p\<close> of the contents \<open>c\<close>; a gap reads as zero bytes.\<close>

definition store_at :: "byte list \<Rightarrow> nat \<Rightarrow> byte list \<Rightarrow> byte list" where
  "store_at c p bs = take p c @ replicate (p - length c) 0 @ bs @ drop (p + length bs) c"

text \<open>How many bytes the next call of the write primitive transfers of \<open>n\<close> requested.\<close>

definition transferred :: "env \<Rightarrow> world \<Rightarrow> nat \<Rightarrow> nat" where
  "transferred e w n = (case write_result e (nwrites w) of None \<Rightarrow> 0 | Some m \<Rightarrow> min m n)"

text \<open>
  \<^verbatim>\<open>fwrite(buffer, 1, to_write, f)\<close> and \<^verbatim>\<open>write(fd, buffer, to_write)\<close>: the
  environment decides how much of the request is transferred; that prefix of the buffer
  is stored at the current position, which advances by it. Nothing is stored when the
  target or the buffer is missing.
\<close>

definition do_write :: "env \<Rightarrow> int \<Rightarrow> string option \<Rightarrow> buffer option \<Rightarrow> nat \<Rightarrow> world \<Rightarrow> world" where
  "do_write e fd f buffer to_write w =
     (let k = transferred e w to_write;
          w' = log (Write to_write) (w\<lparr>nwrites := nwrites w + 1\<rparr>)
      in case (target w fd f, buffer) of
           (Some p, Some b) \<Rightarrow>
             (case data w p of
                Some c \<Rightarrow> w'\<lparr>data := (data w)(p \<mapsto> store_at c (pos w) (map b [0..<k])),
                             pos := pos w + k\<rparr>
              | None \<Rightarrow> w')
         | _ \<Rightarrow> w')"

text \<open>The refill of the random buffer: one \<^verbatim>\<open>rand() & 0xFF\<close> per byte.\<close>

definition regenerate :: "env \<Rightarrow> world \<Rightarrow> world" where
  "regenerate e w =
     w\<lparr>g_random_buffer :=
         (case g_random_buffer w of
            None \<Rightarrow> None
          | Some b \<Rightarrow> Some (\<lambda>i. if i < BUFFER_SIZE
                                then word_of_int (rand_result e (nrands w + i) AND 0xFF)
                                else b i)),
       nrands := nrands w + BUFFER_SIZE\<rparr>"

subsection \<open>One overwrite pass\<close>

text \<open>
  The write loop of \<^verbatim>\<open>overwrite_pass_simd\<close>. The result of the write primitive is not
  read: \<^verbatim>\<open>total_written\<close> advances by the requested length. The loop's final counter is
  returned with the state. The parameter \<open>sz\<close> is the C parameter \<^verbatim>\<open>size\<close>.
\<close>

function write_loop ::
  "env \<Rightarrow> int \<Rightarrow> string option \<Rightarrow> buffer option \<Rightarrow> nat \<Rightarrow> nat \<Rightarrow> world \<Rightarrow> nat \<times> world" where
  "write_loop e fd f buffer sz total_written w =
     (if total_written < sz then
        let to_write = (if sz - total_written < BUFFER_SIZE
                        then sz - total_written else BUFFER_SIZE)
        in write_loop e fd f buffer sz (total_written + to_write)
             (do_write e fd f buffer to_write w)
      else (total_written, w))"
  by pat_completeness auto
termination
  by (relation "measure (\<lambda>(e, fd, f, buffer, sz, total_written, w). sz - total_written)")
     (auto simp: BUFFER_SIZE_def)

declare write_loop.simps [simp del]

text \<open>
  \<^verbatim>\<open>overwrite_pass_simd\<close>. The C function fetches the buffer pointer before it refills
  the random buffer in place; the model, which holds buffers by value, reads the buffer
  after the refill. The progress output is left out. The function returns nothing.
\<close>

definition overwrite_pass_simd ::
  "env \<Rightarrow> int \<Rightarrow> string option \<Rightarrow> nat \<Rightarrow> int \<Rightarrow> int \<Rightarrow> byte \<Rightarrow> world \<Rightarrow> world" where
  "overwrite_pass_simd e fd f sz pass_num total_passes pattern w =
     (let w1 = log (Pass pass_num total_passes pattern) w;
          w2 = log Seek0 (w1\<lparr>pos := 0\<rparr>);
          w3 = (if pattern = 0x52 then regenerate e w2 else w2);
          buffer = get_pattern_buffer e w3 pattern;
          w4 = snd (write_loop e fd f buffer sz 0 w3)
      in if f \<noteq> None then log Fsync (log Fflush w4) else w4)"

subsection \<open>Wiping one file\<close>

text \<open>\<^verbatim>\<open>fopen(filepath, "r+b")\<close>: the stream, or \<open>None\<close> for \<^verbatim>\<open>NULL\<close>.\<close>

definition fopen :: "env \<Rightarrow> world \<Rightarrow> string \<Rightarrow> string option" where
  "fopen e w filepath =
     (if data w filepath \<noteq> None \<and> fopen_ok e filepath then Some filepath else None)"

text \<open>\<^verbatim>\<open>remove(filepath)\<close>: 0 when the entry is removed, -1 otherwise.\<close>

definition remove_path :: "env \<Rightarrow> string \<Rightarrow> world \<Rightarrow> int \<times> world" where
  "remove_path e filepath w =
     (if data w filepath \<noteq> None \<and> remove_ok e filepath
      then (0, log (Remove filepath) (w\<lparr>data := (data w)(filepath := None)\<rparr>))
      else (- 1, log (Remove filepath) w))"

text \<open>
  \<^verbatim>\<open>wipe_file\<close>. The size is the length of the contents when the file is opened
  (\<^verbatim>\<open>fseek\<close> to the end, \<^verbatim>\<open>ftello\<close>, \<^verbatim>\<open>rewind\<close>). The flag
  \<^verbatim>\<open>is_part_of_folder\<close> only selects a message. The result is the C return value.
\<close>

definition wipe_file :: "env \<Rightarrow> string \<Rightarrow> string \<Rightarrow> int \<Rightarrow> world \<Rightarrow> int \<times> world" where
  "wipe_file e filepath method is_part_of_folder w =
     (case fopen e w filepath of
        None \<Rightarrow> (1, w)
      | Some p \<Rightarrow>
          let f = Some p;
              file_size = (case data w filepath of Some c \<Rightarrow> int (length c) | None \<Rightarrow> - 1);
              w0 = w\<lparr>pos := 0\<rparr>;
              w' =
                (if file_size > 0 then
                   (if method = ''--clear'' then
                      overwrite_pass_simd e 0 f (nat file_size) 1 1 0x00 w0
                    else if method = ''--purge'' then
                      let a1 = overwrite_pass_simd e 0 f (nat file_size) 1 3 0x00 w0;
                          a2 = overwrite_pass_simd e 0 f (nat file_size) 2 3 0xFF a1
                      in overwrite_pass_simd e 0 f (nat file_size) 3 3 0x52 a2
                    else if method = ''--destroy-sw'' then
                      let a1 = overwrite_pass_simd e 0 f (nat file_size) 1 7 0x00 w0;
                          a2 = overwrite_pass_simd e 0 f (nat file_size) 2 7 0xFF a1;
                          a3 = overwrite_pass_simd e 0 f (nat file_size) 3 7 0x00 a2;
                          a4 = overwrite_pass_simd e 0 f (nat file_size) 4 7 0xAA a3;
                          a5 = overwrite_pass_simd e 0 f (nat file_size) 5 7 0x55 a4;
                          a6 = overwrite_pass_simd e 0 f (nat file_size) 6 7 0xAA a5
                      in overwrite_pass_simd e 0 f (nat file_size) 7 7 0x52 a6
                    else w0)
                 else w0);
              (r, w'') = remove_path e filepath (log Fclose w')
          in if r = 0 then (0, w'') else (1, w''))"

subsection \<open>Wiping a raw device\<close>

text \<open>
  \<^verbatim>\<open>wipe_disk_raw\<close> (POSIX branch). It calls a function \<^verbatim>\<open>overwrite_pass\<close> that the
  source file does not define; the model takes it as the parameter \<open>overwrite_pass\<close>,
  with the argument list of the calls.
\<close>

definition close_fd :: "int \<Rightarrow> world \<Rightarrow> world" where
  "close_fd fd w = log (CloseFd fd) (w\<lparr>fdtab := (fdtab w)(fd := None)\<rparr>)"

definition wipe_disk_raw ::
  "(int \<Rightarrow> string option \<Rightarrow> nat \<Rightarrow> int \<Rightarrow> int \<Rightarrow> byte \<Rightarrow> world \<Rightarrow> world)
   \<Rightarrow> env \<Rightarrow> string \<Rightarrow> string \<Rightarrow> world \<Rightarrow> int \<times> world" where
  "wipe_disk_raw overwrite_pass e disk_path method w =
     (let fd = open_result e disk_path in
      if fd < 0 then (1, w)
      else
        let w0 = w\<lparr>fdtab := (fdtab w)(fd \<mapsto> disk_path), pos := 0\<rparr> in
        case blkgetsize64 e disk_path of
          None \<Rightarrow> (1, close_fd fd w0)
        | Some disk_size \<Rightarrow>
            let w' =
              (if method = ''--clear'' then
                 overwrite_pass fd None disk_size 1 1 0x00 w0
               else if method = ''--purge'' then
                 let a1 = overwrite_pass fd None disk_size 1 3 0x00 w0;
                     a2 = overwrite_pass fd None disk_size 2 3 0xFF a1
                 in overwrite_pass fd None disk_size 3 3 0x52 a2
               else if method = ''--destroy-sw'' then w0
               else w0)
            in (0, close_fd fd w'))"

subsection \<open>Wiping a directory tree\<close>

text \<open>
  What \<^verbatim>\<open>opendir\<close>, \<^verbatim>\<open>readdir\<close> and \<^verbatim>\<open>stat\<close> report about a path. A directory lists
  its entries in the order \<^verbatim>\<open>readdir\<close> returns them. \<open>Reg ok\<close> is an entry that is not
  a directory, \<open>ok\<close> telling whether the \<^verbatim>\<open>malloc\<close> of its task record succeeds;
  \<open>NoStat\<close> is an entry whose \<^verbatim>\<open>stat\<close> fails; \<open>NoOpen\<close> is a directory that
  \<^verbatim>\<open>opendir\<close> cannot open.
\<close>

datatype node = Reg bool | NoStat | NoOpen | Dir "(string \<times> node) list"

text \<open>
  The scheduler's calls: \<^verbatim>\<open>pthread_create\<close> of a \<^verbatim>\<open>wipe_file_thread\<close> for a path,
  \<^verbatim>\<open>pthread_join\<close> of that thread, and \<^verbatim>\<open>rmdir\<close>.
\<close>

datatype sched_event = Create string | Join string | Rmdir string

text \<open>
  \<^verbatim>\<open>wipe_folder_recursive\<close> with its \<^verbatim>\<open>readdir\<close> loop \<open>scan_entries\<close>. The array
  \<^verbatim>\<open>hThreads[0 .. thread_count)\<close> is the list \<open>hThreads\<close>, a thread being named by the
  path it wipes. The stat result of an entry is the entry's node (the truncation of
  \<^verbatim>\<open>fullPath\<close> to \<open>MAX_PATH - 1\<close> characters is kept for the path handed to the thread).
\<close>

function wipe_folder_recursive :: "string \<Rightarrow> node \<Rightarrow> int \<times> sched_event list"
  and scan_entries :: "string \<Rightarrow> (string \<times> node) list \<Rightarrow> string list \<Rightarrow> sched_event list"
where
  "wipe_folder_recursive basePath (Dir entries) = (0, scan_entries basePath entries [])"
| "wipe_folder_recursive basePath (Reg ok) = (1, [])"
| "wipe_folder_recursive basePath NoStat = (1, [])"
| "wipe_folder_recursive basePath NoOpen = (1, [])"
| "scan_entries basePath [] hThreads = map Join hThreads @ [Rmdir basePath]"
| "scan_entries basePath ((name, nd) # rest) hThreads =
     (if name \<noteq> ''.'' \<and> name \<noteq> ''..'' then
        let fullPath = take (MAX_PATH - 1) (basePath @ ''/'' @ name) in
        case nd of
          NoStat \<Rightarrow> scan_entries basePath rest hThreads
        | Reg ok \<Rightarrow>
            if ok then
              let hs = hThreads @ [fullPath] in
              if length hs = MAX_THREADS
              then Create fullPath # map Join hs @ scan_entries basePath rest []
              else Create fullPath # scan_entries basePath rest hs
            else scan_entries basePath rest hThreads
        | _ \<Rightarrow> snd (wipe_folder_recursive fullPath nd) @ scan_entries basePath rest hThreads
      else scan_entries basePath rest hThreads)"
  by pat_completeness auto
termination
  by (relation "measure (\<lambda>x. case x of
          Inl (basePath, nd) \<Rightarrow> size nd
        | Inr (basePath, entries, hThreads) \<Rightarrow> size_list (size_prod (\<lambda>_. 0) size) entries)")
     auto

text \<open>
  The tasks in flight after a sequence of scheduler calls: threads created and not yet
  joined; and the largest such number over the prefixes of the sequence.
\<close>

fun in_flight :: "sched_event list \<Rightarrow> nat \<Rightarrow> nat" where
  "in_flight [] n = n"
| "in_flight (Create p # evs) n = in_flight evs (Suc n)"
| "in_flight (Join p # evs) n = in_flight evs (n - 1)"
| "in_flight (Rmdir p # evs) n = in_flight evs n"

fun peak_in_flight :: "sched_event list \<Rightarrow> nat \<Rightarrow> nat" where
  "peak_in_flight [] n = n"
| "peak_in_flight (Create p # evs) n = max n (peak_in_flight evs (Suc n))"
| "peak_in_flight (Join p # evs) n = max n (peak_in_flight evs (n - 1))"
| "peak_in_flight (Rmdir p # evs) n = peak_in_flight evs n"

subsection \<open>Vocabulary of the properties\<close>

text \<open>
  The lengths of the write requests of one pass over \<open>n\<close> bytes, in closed form: full
  chunks of \<open>BUFFER_SIZE\<close>, then the remainder when there is one.
\<close>

definition chunk_requests :: "nat \<Rightarrow> nat list" where
  "chunk_requests n =
     replicate (n div BUFFER_SIZE) BUFFER_SIZE @
     (if n mod BUFFER_SIZE = 0 then [] else [n mod BUFFER_SIZE])"

text \<open>The calls one pass makes, in order.\<close>

definition pass_events :: "string option \<Rightarrow> nat \<Rightarrow> int \<Rightarrow> int \<Rightarrow> byte \<Rightarrow> event list" where
  "pass_events f sz pass_num total_passes pattern =
     [Pass pass_num total_passes pattern, Seek0] @ map Write (chunk_requests sz) @
     (if f \<noteq> None then [Fflush, Fsync] else [])"

text \<open>The passes of a trace: pass number, total and pattern of each header.\<close>

fun pass_calls :: "event list \<Rightarrow> (int \<times> int \<times> byte) list" where
  "pass_calls [] = []"
| "pass_calls (Pass n t p # evs) = (n, t, p) # pass_calls evs"
| "pass_calls (ev # evs) = pass_calls evs"

text \<open>The passes \<^verbatim>\<open>wipe_file\<close> makes on a file that is not empty, by method.\<close>

definition file_passes :: "string \<Rightarrow> (int \<times> int \<times> byte) list" where
  "file_passes method =
     (if method = ''--clear'' then [(1, 1, 0x00)]
      else if method = ''--purge'' then [(1, 3, 0x00), (2, 3, 0xFF), (3, 3, 0x52)]
      else if method = ''--destroy-sw'' then
        [(1, 7, 0x00), (2, 7, 0xFF), (3, 7, 0x00), (4, 7, 0xAA), (5, 7, 0x55), (6, 7, 0xAA),
         (7, 7, 0x52)]
      else [])"

text \<open>An environment in which every call of the write primitive transfers all of its request.\<close>

definition full_writes :: "env \<Rightarrow> bool" where
  "full_writes e =
     (\<forall>k. case write_result e k of None \<Rightarrow> False | Some m \<Rightarrow> BUFFER_SIZE \<le> m)"

text \<open>The buffer a pass writes from: the pattern's buffer, read after the random refill.\<close>

definition pass_buffer :: "env \<Rightarrow> world \<Rightarrow> byte \<Rightarrow> buffer option" where
  "pass_buffer e w pattern =
     get_pattern_buffer e (if pattern = 0x52 then regenerate e w else w) pattern"

text \<open>
  The contents \<open>c\<close> with the first \<open>sz\<close> bytes overwritten from the buffer \<open>b\<close>, every
  chunk starting again at the buffer's first byte.
\<close>

definition overwritten :: "buffer \<Rightarrow> nat \<Rightarrow> byte list \<Rightarrow> byte list" where
  "overwritten b sz c = map (\<lambda>i. b (i mod BUFFER_SIZE)) [0..<sz] @ drop sz c"

text \<open>How deep directories are nested in a node: 0 for a directory without subdirectories.\<close>

fun depth :: "node \<Rightarrow> nat"
  and depth_entries :: "(string \<times> node) list \<Rightarrow> nat" where
  "depth (Dir entries) = depth_entries entries"
| "depth (Reg ok) = 0"
| "depth NoStat = 0"
| "depth NoOpen = 0"
| "depth_entries [] = 0"
| "depth_entries ((name, nd) # rest) =
     max (case nd of Dir sub \<Rightarrow> Suc (depth nd) | _ \<Rightarrow> 0) (depth_entries rest)"

text \<open>
  The scheduler on a node returns with as many tasks in flight as it started with, and
  in between has at most \<open>MAX_THREADS\<close> more, plus \<open>MAX_THREADS - 1\<close> for each level
  of nesting.
\<close>

definition sched_ok :: "node \<Rightarrow> bool" where
  "sched_ok nd = (\<forall>basePath n.
      in_flight (snd (wipe_folder_recursive basePath nd)) n = n
      \<and> peak_in_flight (snd (wipe_folder_recursive basePath nd)) n
          \<le> n + MAX_THREADS + (MAX_THREADS - 1) * depth nd)"

subsection \<open>Concrete inputs\<close>

definition env_full :: env where
  "env_full =
     \<lparr>char_signed = True,
      write_result = (\<lambda>k. Some BUFFER_SIZE),
      rand_result = (\<lambda>k. 17 * int k + 5),
      fopen_ok = (\<lambda>p. True),
      remove_ok = (\<lambda>p. True),
      open_result = (\<lambda>p. 3),
      blkgetsize64 = (\<lambda>p. Some 4)\<rparr>"


definition env_short :: env where
  "env_short = env_full\<lparr>write_result := (\<lambda>k. Some 1)\<rparr>"

definition world_start :: world where
  "world_start =
     \<lparr>data = [''/tmp/secret.txt'' \<mapsto> [0x41, 0x42, 0x43], ''/tmp/empty'' \<mapsto> [],
              ''/dev/sdb'' \<mapsto> [1, 2, 3, 4]],
      fdtab = Map.empty,
      pos = 0,
      g_zero_buffer = None,
      g_ff_buffer = None,
      g_aa_buffer = None,
      g_55_buffer = None,
      g_random_buffer = None,
      nwrites = 0,
      nrands = 0,
      trace = []\<rparr>"

definition world_ready :: world where
  "world_ready = init_buffers env_full world_start"

text \<open>A directory with 63 files listed before a subdirectory that holds two files.\<close>

definition tree_65 :: node where
  "tree_65 =
     Dir (map (\<lambda>k. (CHR ''f'' # replicate k CHR ''x'', Reg True)) [0..<63] @
          [(''sub'', Dir [(''a'', Reg True), (''b'', Reg True)])])"

section \<open>Properties\<close>

subsection \<open>The write loop\<close>

lemma BUFFER_SIZE_pos: "0 < BUFFER_SIZE"
  by (simp add: BUFFER_SIZE_def)

lemma chunk_requests_0: "chunk_requests 0 = []"
  by (simp add: chunk_requests_def)

lemma chunk_requests_small: "0 < n \<Longrightarrow> n < BUFFER_SIZE \<Longrightarrow> chunk_requests n = [n]"
  by (simp add: chunk_requests_def)

lemma chunk_requests_large:
  assumes "BUFFER_SIZE \<le> n"
  shows "chunk_requests n = BUFFER_SIZE # chunk_requests (n - BUFFER_SIZE)"
proof -
  have d: "n div BUFFER_SIZE = Suc ((n - BUFFER_SIZE) div BUFFER_SIZE)"
    using assms BUFFER_SIZE_pos by (simp add: le_div_geq)
  have m: "n mod BUFFER_SIZE = (n - BUFFER_SIZE) mod BUFFER_SIZE"
    using assms by (simp add: le_mod_geq)
  show ?thesis
    by (simp add: chunk_requests_def d m)
qed

lemma chunk_requests_step:
  "0 < n \<Longrightarrow> chunk_requests n = min n BUFFER_SIZE # chunk_requests (n - min n BUFFER_SIZE)"
  by (cases "n < BUFFER_SIZE")
     (simp_all add: chunk_requests_small chunk_requests_large chunk_requests_0 min_def)

lemma write_loop_done: "\<not> tw < sz \<Longrightarrow> write_loop e fd f b sz tw w = (tw, w)"
  by (simp add: write_loop.simps [of e fd f b sz tw w])

lemma write_loop_step:
  "tw < sz \<Longrightarrow> write_loop e fd f b sz tw w =
     write_loop e fd f b sz (tw + min (sz - tw) BUFFER_SIZE)
       (do_write e fd f b (min (sz - tw) BUFFER_SIZE) w)"
  by (simp add: write_loop.simps [of e fd f b sz tw w] min_def)

text \<open>Induction along the iterations of the loop.\<close>

lemma write_loop_induct [consumes 0, case_names stop step]:
  assumes "\<And>tw w. \<not> tw < sz \<Longrightarrow> P tw w"
    and "\<And>tw w. tw < sz \<Longrightarrow>
           P (tw + min (sz - tw) BUFFER_SIZE) (do_write e fd f b (min (sz - tw) BUFFER_SIZE) w)
           \<Longrightarrow> P tw w"
  shows "P tw w"
proof (induction "sz - tw" arbitrary: tw w rule: less_induct)
  case (less tw w)
  show ?case
  proof (cases "tw < sz")
    case False
    then show ?thesis by (rule assms(1))
  next
    case True
    have "sz - (tw + min (sz - tw) BUFFER_SIZE) < sz - tw"
      using True BUFFER_SIZE_pos by (simp add: min_def, arith)
    then have "P (tw + min (sz - tw) BUFFER_SIZE)
        (do_write e fd f b (min (sz - tw) BUFFER_SIZE) w)"
      by (rule less)
    with True show ?thesis
      by (rule assms(2))
  qed
qed

lemma trace_do_write: "trace (do_write e fd f b n w) = trace w @ [Write n]"
  by (simp add: do_write_def log_def Let_def split: option.splits)

lemma trace_write_loop:
  "trace (snd (write_loop e fd f b sz tw w)) = trace w @ map Write (chunk_requests (sz - tw))"
proof (induction tw w
    rule: write_loop_induct [where sz = sz and e = e and fd = fd and f = f and b = b])
  case (stop tw w)
  then show ?case
    by (simp add: write_loop_done chunk_requests_0)
next
  case (step tw w)
  have u: "write_loop e fd f b sz tw w =
     write_loop e fd f b sz (tw + min (sz - tw) BUFFER_SIZE)
       (do_write e fd f b (min (sz - tw) BUFFER_SIZE) w)"
    using step(1) by (rule write_loop_step)
  have c: "chunk_requests (sz - tw) =
      min (sz - tw) BUFFER_SIZE # chunk_requests (sz - (tw + min (sz - tw) BUFFER_SIZE))"
    using step(1) chunk_requests_step [of "sz - tw"] by simp
  show ?case
    unfolding u c using step(2) by (simp add: trace_do_write)
qed

lemma fst_write_loop: "tw \<le> sz \<Longrightarrow> fst (write_loop e fd f b sz tw w) = sz"
proof (induction tw w
    rule: write_loop_induct [where sz = sz and e = e and fd = fd and f = f and b = b])
  case (stop tw w)
  then show ?case
    by (simp add: write_loop_done)
next
  case (step tw w)
  have u: "write_loop e fd f b sz tw w =
     write_loop e fd f b sz (tw + min (sz - tw) BUFFER_SIZE)
       (do_write e fd f b (min (sz - tw) BUFFER_SIZE) w)"
    using step(1) by (rule write_loop_step)
  have "tw + min (sz - tw) BUFFER_SIZE \<le> sz"
    using step(1) by simp
  then show ?case
    unfolding u using step(2) by simp
qed

lemma do_write_exists: "(data (do_write e fd f b n w) q = None) = (data w q = None)"
  by (simp add: do_write_def log_def Let_def split: option.splits)

lemma write_loop_exists:
  "(data (snd (write_loop e fd f b sz tw w)) q = None) = (data w q = None)"
proof (induction tw w
    rule: write_loop_induct [where sz = sz and e = e and fd = fd and f = f and b = b])
  case (stop tw w)
  then show ?case by (simp add: write_loop_done)
next
  case (step tw w)
  have u: "write_loop e fd f b sz tw w =
     write_loop e fd f b sz (tw + min (sz - tw) BUFFER_SIZE)
       (do_write e fd f b (min (sz - tw) BUFFER_SIZE) w)"
    using step(1) by (rule write_loop_step)
  show ?case
    unfolding u using step(2) by (simp add: do_write_exists)
qed

subsection \<open>One pass and one file\<close>

lemma trace_overwrite_pass_simd:
  "trace (overwrite_pass_simd e fd f sz pn tp pat w) = trace w @ pass_events f sz pn tp pat"
  by (simp add: overwrite_pass_simd_def pass_events_def Let_def log_def trace_write_loop
      regenerate_def)

lemma overwrite_pass_simd_exists:
  "(data (overwrite_pass_simd e fd f sz pn tp pat w) q = None) = (data w q = None)"
  by (simp add: overwrite_pass_simd_def Let_def log_def write_loop_exists regenerate_def)

lemma overwrite_pass_simd_exists_Some:
  "(\<exists>y. data (overwrite_pass_simd e fd f sz pn tp pat w) q = Some y) = (\<exists>y. data w q = Some y)"
  using overwrite_pass_simd_exists [of e fd f sz pn tp pat w q]
  by (simp only: not_None_eq [symmetric])

lemma pass_calls_append: "pass_calls (xs @ ys) = pass_calls xs @ pass_calls ys"
  by (induction xs rule: pass_calls.induct) simp_all

lemma pass_calls_Write: "pass_calls (map Write ns) = []"
  by (induction ns) simp_all

lemma pass_calls_pass_events: "pass_calls (pass_events f sz n t p) = [(n, t, p)]"
  by (simp add: pass_events_def pass_calls_append pass_calls_Write)

lemma fopen_Some: "fopen e w filepath = Some p \<Longrightarrow> p = filepath \<and> data w filepath \<noteq> None"
  by (simp add: fopen_def split: if_splits)

lemma trace_wipe_file:
  assumes "fopen e w filepath = Some p" and "data w filepath = Some c"
  shows "trace (snd (wipe_file e filepath method i w)) =
     trace w @
     (if c = [] then []
      else concat (map (\<lambda>(n, t, pt). pass_events (Some filepath) (length c) n t pt)
             (file_passes method))) @
     [Fclose, Remove filepath]"
proof -
  have p: "p = filepath" using assms(1) by (simp add: fopen_Some)
  show ?thesis
    using assms unfolding p
    by (simp add: wipe_file_def Let_def remove_path_def log_def file_passes_def
        trace_overwrite_pass_simd split: prod.splits)
qed

lemma result_wipe_file:
  assumes "fopen e w filepath = Some p"
  shows "fst (wipe_file e filepath method i w) = (if remove_ok e filepath then 0 else 1)"
    and "(data (snd (wipe_file e filepath method i w)) filepath = None) = remove_ok e filepath"
proof -
  have p: "p = filepath" and "data w filepath \<noteq> None"
    using assms by (simp_all add: fopen_Some)
  then obtain c where c: "data w filepath = Some c"
    by blast
  show "fst (wipe_file e filepath method i w) = (if remove_ok e filepath then 0 else 1)"
    using assms c unfolding p
    by (simp add: wipe_file_def Let_def remove_path_def log_def
        overwrite_pass_simd_exists overwrite_pass_simd_exists_Some split: prod.splits)
  show "(data (snd (wipe_file e filepath method i w)) filepath = None) = remove_ok e filepath"
    using assms c unfolding p
    by (simp add: wipe_file_def Let_def remove_path_def log_def
        overwrite_pass_simd_exists overwrite_pass_simd_exists_Some split: prod.splits)
qed

lemma world_ready_simps:
  "data world_ready = data world_start"
  "fdtab world_ready = Map.empty"
  "pos world_ready = 0"
  "nwrites world_ready = 0"
  "trace world_ready = []"
  "g_zero_buffer world_ready = Some (\<lambda>i. 0x00)"
  "g_ff_buffer world_ready = Some (\<lambda>i. 0xFF)"
  "g_aa_buffer world_ready = Some (\<lambda>i. 0xAA)"
  "g_55_buffer world_ready = Some (\<lambda>i. 0x55)"
  by (simp_all add: world_ready_def init_buffers_def world_start_def)

lemma data_world_start:
  "data world_start ''/tmp/secret.txt'' = Some [0x41, 0x42, 0x43]"
  "data world_start ''/tmp/empty'' = Some []"
  "data world_start ''/dev/sdb'' = Some [1, 2, 3, 4]"
  by (simp_all add: world_start_def)

subsection \<open>Contents after a pass\<close>

lemma sum_list_chunk_requests: "sum_list (chunk_requests n) = n"
proof (induction n rule: less_induct)
  case (less n)
  show ?case
  proof (cases "n = 0")
    case True
    then show ?thesis by (simp add: chunk_requests_0)
  next
    case False
    then have pos: "0 < n" by simp
    have "n - min n BUFFER_SIZE < n"
      using pos BUFFER_SIZE_pos by (simp add: min_def)
    then have "sum_list (chunk_requests (n - min n BUFFER_SIZE)) = n - min n BUFFER_SIZE"
      by (rule less)
    then show ?thesis
      by (simp add: chunk_requests_step [OF pos])
  qed
qed

lemma chunk_requests_bound: "m \<in> set (chunk_requests n) \<Longrightarrow> 0 < m \<and> m \<le> BUFFER_SIZE"
  using BUFFER_SIZE_pos by (auto simp: chunk_requests_def split: if_splits)

lemma chunk_requests_nth:
  "i < length (chunk_requests n) \<Longrightarrow>
   chunk_requests n ! i = min BUFFER_SIZE (n - sum_list (take i (chunk_requests n)))"
proof (induction n arbitrary: i rule: less_induct)
  case (less n)
  show ?case
  proof (cases "n = 0")
    case True
    with less.prems show ?thesis by (simp add: chunk_requests_0)
  next
    case False
    then have pos: "0 < n" by simp
    define m where "m = min n BUFFER_SIZE"
    have c: "chunk_requests n = m # chunk_requests (n - m)"
      unfolding m_def using pos by (rule chunk_requests_step)
    have lt: "n - m < n"
      using pos BUFFER_SIZE_pos by (simp add: m_def min_def)
    show ?thesis
    proof (cases i)
      case 0
      then show ?thesis by (simp add: c m_def min.commute)
    next
      case (Suc j)
      with less.prems have j: "j < length (chunk_requests (n - m))"
        by (simp add: c)
      have "chunk_requests (n - m) ! j =
          min BUFFER_SIZE (n - m - sum_list (take j (chunk_requests (n - m))))"
        using lt j by (rule less.IH)
      then show ?thesis
        by (simp add: c Suc)
    qed
  qed
qed

lemma transferred_full: "full_writes e \<Longrightarrow> n \<le> BUFFER_SIZE \<Longrightarrow> transferred e w n = n"
  unfolding full_writes_def transferred_def
  by (erule allE [of _ "nwrites w"]) (simp split: option.splits)

lemma do_write_frame:
  "fdtab (do_write e fd f b n w) = fdtab w"
  "g_zero_buffer (do_write e fd f b n w) = g_zero_buffer w"
  "g_ff_buffer (do_write e fd f b n w) = g_ff_buffer w"
  "g_aa_buffer (do_write e fd f b n w) = g_aa_buffer w"
  "g_55_buffer (do_write e fd f b n w) = g_55_buffer w"
  "g_random_buffer (do_write e fd f b n w) = g_random_buffer w"
  "nrands (do_write e fd f b n w) = nrands w"
  "nwrites (do_write e fd f b n w) = Suc (nwrites w)"
  by (simp_all add: do_write_def log_def Let_def split: option.splits)

lemma target_do_write: "target (do_write e fd f b n w) fd' f' = target w fd' f'"
  by (cases f') (simp_all add: target_def do_write_frame)

lemma do_write_full:
  assumes "full_writes e" "n \<le> BUFFER_SIZE"
    and "target w fd f = Some p" "data w p = Some c"
  shows "data (do_write e fd f (Some b) n w) = (data w)(p \<mapsto> store_at c (pos w) (map b [0..<n]))"
    and "pos (do_write e fd f (Some b) n w) = pos w + n"
  using assms by (simp_all add: do_write_def log_def Let_def transferred_full)

lemma write_loop_full:
  assumes full: "full_writes e"
  shows "target w fd f = Some p \<Longrightarrow> data w p = Some c \<Longrightarrow> pos w = tw \<Longrightarrow>
     tw \<le> length c \<Longrightarrow> tw \<le> sz \<Longrightarrow>
     data (snd (write_loop e fd f (Some b) sz tw w)) =
       (data w)(p \<mapsto> take tw c @ map (\<lambda>i. b ((i - tw) mod BUFFER_SIZE)) [tw..<sz] @ drop sz c)
     \<and> pos (snd (write_loop e fd f (Some b) sz tw w)) = sz"
proof (induction tw w arbitrary: c
    rule: write_loop_induct [where sz = sz and e = e and fd = fd and f = f and b = "Some b"])
  case (stop tw w)
  then have "tw = sz" by simp
  with stop show ?case
    by (simp add: write_loop_done fun_upd_idem)
next
  case (step tw w)
  define n where "n = min (sz - tw) BUFFER_SIZE"
  define w1 where "w1 = do_write e fd f (Some b) n w"
  define c1 where "c1 = store_at c tw (map b [0..<n])"
  have n: "0 < n" "n \<le> BUFFER_SIZE" "tw + n \<le> sz"
    using step.hyps BUFFER_SIZE_pos by (simp_all add: n_def)
  have u: "write_loop e fd f (Some b) sz tw w = write_loop e fd f (Some b) sz (tw + n) w1"
    unfolding n_def w1_def using step.hyps by (rule write_loop_step)
  have c1: "c1 = take tw c @ map b [0..<n] @ drop (tw + n) c"
    using step.prems by (simp add: c1_def store_at_def)
  have d1: "data w1 = (data w)(p \<mapsto> c1)" and p1: "pos w1 = tw + n"
    using do_write_full [OF full n(2) step.prems(1) step.prems(2), of b] step.prems
    by (simp_all add: w1_def c1_def)
  have len: "length (take tw c) = tw"
    using step.prems by simp
  have a3: "tw + n \<le> length c1"
    using step.prems by (simp add: c1)
  have a1: "data w1 p = Some c1"
    by (simp add: d1)
  have a5: "target w1 fd f = Some p"
    by (simp add: w1_def target_do_write step.prems)
  note ih = step.IH [folded n_def, folded w1_def, OF a5 a1 p1 a3 n(3)]
  have t: "take (tw + n) c1 = take tw c @ map b [0..<n]"
    using len by (simp add: c1)
  have dr: "drop sz c1 = drop sz c"
  proof -
    have "drop sz c1 = drop (sz - (tw + n)) (drop (tw + n) c)"
      using len n by (simp add: c1)
    also have "\<dots> = drop sz c"
      using n by simp
    finally show ?thesis .
  qed
  have split: "[tw..<sz] = [tw..<tw + n] @ [tw + n..<sz]"
    using upt_add_eq_append [of tw "tw + n" "sz - (tw + n)"] n by simp
  have m1: "map (\<lambda>i. b ((i - tw) mod BUFFER_SIZE)) [tw..<tw + n] = map b [0..<n]"
  proof (rule nth_equalityI)
    show "length (map (\<lambda>i. b ((i - tw) mod BUFFER_SIZE)) [tw..<tw + n]) = length (map b [0..<n])"
      by simp
  next
    fix i assume "i < length (map (\<lambda>i. b ((i - tw) mod BUFFER_SIZE)) [tw..<tw + n])"
    then have "i < n" by simp
    then show "map (\<lambda>i. b ((i - tw) mod BUFFER_SIZE)) [tw..<tw + n] ! i = map b [0..<n] ! i"
      using n(2) by simp
  qed
  have m2: "map (\<lambda>i. b ((i - (tw + n)) mod BUFFER_SIZE)) [tw + n..<sz] =
            map (\<lambda>i. b ((i - tw) mod BUFFER_SIZE)) [tw + n..<sz]"
  proof (cases "tw + n < sz")
    case False
    then show ?thesis by simp
  next
    case True
    then have nB: "n = BUFFER_SIZE"
      by (simp add: n_def min_def split: if_splits)
    show ?thesis
    proof (rule map_cong [OF refl])
      fix i assume "i \<in> set [tw + n..<sz]"
      then have "i - tw = (i - (tw + n)) + BUFFER_SIZE"
        using nB by simp
      then show "b ((i - (tw + n)) mod BUFFER_SIZE) = b ((i - tw) mod BUFFER_SIZE)"
        by simp
    qed
  qed
  show ?case
    unfolding u using ih by (simp add: d1 t dr split m1 m2 del: fun_upd_apply)
qed

lemma get_pattern_buffer_cong:
  "g_zero_buffer w = g_zero_buffer w' \<Longrightarrow> g_ff_buffer w = g_ff_buffer w' \<Longrightarrow>
   g_aa_buffer w = g_aa_buffer w' \<Longrightarrow> g_55_buffer w = g_55_buffer w' \<Longrightarrow>
   g_random_buffer w = g_random_buffer w' \<Longrightarrow>
   get_pattern_buffer e w pat = get_pattern_buffer e w' pat"
  by (simp add: get_pattern_buffer_def Let_def)

lemma overwrite_pass_simd_full:
  assumes "full_writes e" and "target w fd f = Some p" and "data w p = Some c"
    and "pass_buffer e w pat = Some b"
  shows "data (overwrite_pass_simd e fd f sz pn tp pat w) = (data w)(p \<mapsto> overwritten b sz c)"
    and "pos (overwrite_pass_simd e fd f sz pn tp pat w) = sz"
proof -
  define w3 where "w3 = (let w2 = log Seek0 ((log (Pass pn tp pat) w)\<lparr>pos := 0\<rparr>)
                         in if pat = 0x52 then regenerate e w2 else w2)"
  have "get_pattern_buffer e w3 pat =
      get_pattern_buffer e (if pat = 0x52 then regenerate e w else w) pat"
    by (rule get_pattern_buffer_cong)
       (simp_all add: w3_def Let_def log_def regenerate_def cong: if_cong split: option.splits)
  then have b: "get_pattern_buffer e w3 pat = Some b"
    using assms(4) by (simp add: pass_buffer_def)
  have t: "target w3 fd f = Some p"
    using assms(2)
    by (cases f) (simp_all add: w3_def Let_def log_def regenerate_def target_def)
  have d: "data w3 = data w"
    by (simp add: w3_def Let_def log_def regenerate_def)
  have p: "pos w3 = 0"
    by (simp add: w3_def Let_def log_def regenerate_def)
  have "data (snd (write_loop e fd f (Some b) sz 0 w3)) =
       (data w3)(p \<mapsto> take 0 c @ map (\<lambda>i. b ((i - 0) mod BUFFER_SIZE)) [0..<sz] @ drop sz c)
     \<and> pos (snd (write_loop e fd f (Some b) sz 0 w3)) = sz"
    using assms(3) by (intro write_loop_full [OF assms(1) t _ p]) (simp_all add: d)
  then have r: "data (snd (write_loop e fd f (Some b) sz 0 w3)) = (data w)(p \<mapsto> overwritten b sz c)"
      "pos (snd (write_loop e fd f (Some b) sz 0 w3)) = sz"
    by (simp_all add: overwritten_def d)
  have o: "overwrite_pass_simd e fd f sz pn tp pat w =
      (let w4 = snd (write_loop e fd f (Some b) sz 0 w3)
       in if f \<noteq> None then log Fsync (log Fflush w4) else w4)"
    using b by (simp add: overwrite_pass_simd_def w3_def Let_def)
  show "data (overwrite_pass_simd e fd f sz pn tp pat w) = (data w)(p \<mapsto> overwritten b sz c)"
    unfolding o using r by (cases f) (simp_all add: Let_def log_def)
  show "pos (overwrite_pass_simd e fd f sz pn tp pat w) = sz"
    unfolding o using r by (cases f) (simp_all add: Let_def log_def)
qed

lemma byte_eq_sintI: "sint (p :: byte) = sint q \<Longrightarrow> p = q"
  by (rule signed_word_eqI)

lemma byte_eq_uintI: "uint (p :: byte) = uint q \<Longrightarrow> p = q"
  by (simp add: word_uint_eq_iff)

lemma promote_unknown:
  assumes "pattern \<notin> {0x00, 0xFF, 0xAA, 0x55, 0x52}"
  shows "promote e pattern \<noteq> 0x00" "promote e pattern \<noteq> 0xFF" "promote e pattern \<noteq> 0xAA"
    "promote e pattern \<noteq> 0x55" "promote e pattern \<noteq> 82"
proof -
  have s: "sint pattern < 128"
    using sint_lt [of pattern] by simp
  have s0: "sint pattern \<noteq> 0"
    using assms byte_eq_sintI [of pattern 0] by auto
  have s55: "sint pattern \<noteq> 85"
    using assms byte_eq_sintI [of pattern "0x55"] by auto
  have s52: "sint pattern \<noteq> 82"
    using assms byte_eq_sintI [of pattern "0x52"] by auto
  have u0: "uint pattern \<noteq> 0"
    using assms byte_eq_uintI [of pattern 0] by auto
  have uff: "uint pattern \<noteq> 255"
    using assms byte_eq_uintI [of pattern "0xFF"] by auto
  have uaa: "uint pattern \<noteq> 170"
    using assms byte_eq_uintI [of pattern "0xAA"] by auto
  have u55: "uint pattern \<noteq> 85"
    using assms byte_eq_uintI [of pattern "0x55"] by auto
  have u52: "uint pattern \<noteq> 82"
    using assms byte_eq_uintI [of pattern "0x52"] by auto
  show "promote e pattern \<noteq> 0x00" "promote e pattern \<noteq> 0xFF" "promote e pattern \<noteq> 0xAA"
    "promote e pattern \<noteq> 0x55" "promote e pattern \<noteq> 82"
    using s s0 s55 s52 u0 uff uaa u55 u52 by (simp_all add: promote_def)
qed

lemma get_pattern_buffer_unknown:
  assumes "pattern \<notin> {0x00, 0xFF, 0xAA, 0x55, 0x52}"
  shows "get_pattern_buffer e w pattern = g_zero_buffer w"
  using promote_unknown [OF assms, of e] by (simp add: get_pattern_buffer_def Let_def)

lemma full_writes_env_full: "full_writes env_full"
  by (simp add: full_writes_def env_full_def)

lemma chunk_requests_two: "chunk_requests 268435461 = [268435456, 5]"
  by (simp add: chunk_requests_def BUFFER_SIZE_def)

subsection \<open>Write results and concrete runs\<close>

lemma nwrites_do_write: "nwrites (do_write e fd f b n w) = Suc (nwrites w)"
  by (simp add: do_write_frame)

lemma nwrites_write_loop:
  "nwrites (snd (write_loop e fd f b sz tw w)) = nwrites w + length (chunk_requests (sz - tw))"
proof (induction tw w
    rule: write_loop_induct [where sz = sz and e = e and fd = fd and f = f and b = b])
  case (stop tw w)
  then show ?case
    by (simp add: write_loop_done chunk_requests_0)
next
  case (step tw w)
  have u: "write_loop e fd f b sz tw w =
     write_loop e fd f b sz (tw + min (sz - tw) BUFFER_SIZE)
       (do_write e fd f b (min (sz - tw) BUFFER_SIZE) w)"
    using step(1) by (rule write_loop_step)
  have c: "chunk_requests (sz - tw) =
      min (sz - tw) BUFFER_SIZE # chunk_requests (sz - (tw + min (sz - tw) BUFFER_SIZE))"
    using step(1) chunk_requests_step [of "sz - tw"] by simp
  show ?case
    unfolding u c using step(2) by (simp add: nwrites_do_write)
qed

lemma nwrites_overwrite_pass_simd:
  "nwrites (overwrite_pass_simd e fd f sz pn tp pat w) = nwrites w + length (chunk_requests sz)"
  by (simp add: overwrite_pass_simd_def Let_def log_def nwrites_write_loop regenerate_def)

lemma write_loop_small:
  "0 < sz \<Longrightarrow> sz < BUFFER_SIZE \<Longrightarrow>
   write_loop e fd f b sz 0 w = (sz, do_write e fd f b sz w)"
  by (simp add: write_loop_step write_loop_done)

lemma fopen_secret: "fopen e world_ready ''/tmp/secret.txt'' = (if fopen_ok e ''/tmp/secret.txt'' then Some ''/tmp/secret.txt'' else None)"
  by (simp add: fopen_def world_ready_simps data_world_start)


subsection \<open>Further facts about the lookup and the method dispatch\<close>

text \<open>
  Where \<^verbatim>\<open>char\<close> is signed, the case labels \<open>0xFF\<close> and \<open>0xAA\<close> are out of the range
  of the promoted pattern, and these two patterns select the zero buffer as well.
\<close>

lemma get_pattern_buffer_signed:
  "char_signed e \<Longrightarrow> get_pattern_buffer e w 0xFF = g_zero_buffer w"
  "char_signed e \<Longrightarrow> get_pattern_buffer e w 0xAA = g_zero_buffer w"
  by (simp_all add: get_pattern_buffer_def promote_def)

lemma get_pattern_buffer_unsigned:
  "\<not> char_signed e \<Longrightarrow> get_pattern_buffer e w 0xFF = g_ff_buffer w"
  "\<not> char_signed e \<Longrightarrow> get_pattern_buffer e w 0xAA = g_aa_buffer w"
  by (simp_all add: get_pattern_buffer_def promote_def)

lemma get_pattern_buffer_known:
  "get_pattern_buffer e w 0x00 = g_zero_buffer w"
  "get_pattern_buffer e w 0x55 = g_55_buffer w"
  "get_pattern_buffer e w 0x52 = g_random_buffer w"
  by (simp_all add: get_pattern_buffer_def promote_def)

text \<open>
  A method string other than the three makes \<^verbatim>\<open>wipe_file\<close> skip every pass and go on
  to close and remove the file.
\<close>

lemma wipe_file_other_method:
  assumes "fopen e w filepath \<noteq> None"
    and "method \<noteq> ''--clear''" "method \<noteq> ''--purge''" "method \<noteq> ''--destroy-sw''"
  shows "trace (snd (wipe_file e filepath method i w)) = trace w @ [Fclose, Remove filepath]"
    and "fst (wipe_file e filepath method i w) = (if remove_ok e filepath then 0 else 1)"
proof -
  from assms(1) obtain p where p: "fopen e w filepath = Some p"
    by blast
  then obtain c where c: "data w filepath = Some c"
    using fopen_Some [OF p] by blast
  show "trace (snd (wipe_file e filepath method i w)) = trace w @ [Fclose, Remove filepath]"
    using assms(2-4) by (simp add: trace_wipe_file [OF p c] file_passes_def)
  show "fst (wipe_file e filepath method i w) = (if remove_ok e filepath then 0 else 1)"
    by (rule result_wipe_file [OF p])
qed

subsection \<open>The directory scheduler\<close>

lemma in_flight_append: "in_flight (xs @ ys) n = in_flight ys (in_flight xs n)"
  by (induction xs n rule: in_flight.induct) simp_all

lemma peak_ge: "n \<le> peak_in_flight xs n"
  by (induction xs n rule: peak_in_flight.induct) (simp_all add: max.coboundedI1)

lemma peak_in_flight_append:
  "peak_in_flight (xs @ ys) n = max (peak_in_flight xs n) (peak_in_flight ys (in_flight xs n))"
  by (induction xs n rule: peak_in_flight.induct) (simp_all add: max.assoc max_absorb2 peak_ge)

lemma in_flight_joins: "in_flight (map Join hs) n = n - length hs"
  by (induction hs arbitrary: n) simp_all

lemma peak_in_flight_joins: "peak_in_flight (map Join hs) n = n"
  by (induction hs arbitrary: n) simp_all

lemma scan_entries_bound:
  assumes "\<forall>x\<in>set entries. sched_ok (snd x)"
    and "length hThreads < MAX_THREADS" and "length hThreads \<le> n"
  shows "in_flight (scan_entries basePath entries hThreads) n = n - length hThreads
    \<and> peak_in_flight (scan_entries basePath entries hThreads) n
        \<le> n - length hThreads + MAX_THREADS + (MAX_THREADS - 1) * depth_entries entries"
  using assms
proof (induction entries arbitrary: hThreads n)
  case Nil
  then show ?case
    by (simp add: in_flight_append peak_in_flight_append in_flight_joins peak_in_flight_joins)
next
  case (Cons x rest)
  obtain name nd where x: "x = (name, nd)"
    by (cases x)
  define bd where "bd = (MAX_THREADS - 1) * depth_entries rest"
  define bD where "bD = (MAX_THREADS - 1) * depth_entries (x # rest)"
  define fullPath where "fullPath = take (MAX_PATH - 1) (basePath @ ''/'' @ name)"
  have mono: "bd \<le> bD"
    unfolding bd_def bD_def by (rule mult_le_mono2) (simp add: x)
  have rest_ok: "\<forall>x\<in>set rest. sched_ok (snd x)"
    using Cons.prems(1) by simp
  note IH = Cons.IH [OF rest_ok, folded bd_def]
  have same: "in_flight (scan_entries basePath rest hThreads) n = n - length hThreads
    \<and> peak_in_flight (scan_entries basePath rest hThreads) n
        \<le> n - length hThreads + MAX_THREADS + bD"
    using IH [OF Cons.prems(2,3)] mono by linarith
  have goal: "in_flight (scan_entries basePath (x # rest) hThreads) n = n - length hThreads
    \<and> peak_in_flight (scan_entries basePath (x # rest) hThreads) n
        \<le> n - length hThreads + MAX_THREADS + bD"
  proof (cases "name \<noteq> ''.'' \<and> name \<noteq> ''..''")
    case False
    then have "scan_entries basePath (x # rest) hThreads = scan_entries basePath rest hThreads"
      by (auto simp: x)
    with same show ?thesis by simp
  next
    case True
    show ?thesis
    proof (cases nd)
      case NoStat
      with True have "scan_entries basePath (x # rest) hThreads = scan_entries basePath rest hThreads"
        by (simp add: x)
      with same show ?thesis by simp
    next
      case NoOpen
      with True have "scan_entries basePath (x # rest) hThreads = scan_entries basePath rest hThreads"
        by (simp add: x)
      with same show ?thesis by simp
    next
      case (Reg ok)
      show ?thesis
      proof (cases ok)
        case False
        with True Reg have "scan_entries basePath (x # rest) hThreads =
            scan_entries basePath rest hThreads"
          by (simp add: x)
        with same show ?thesis by simp
      next
        case ok: True
        show ?thesis
        proof (cases "Suc (length hThreads) = MAX_THREADS")
          case full: True
          have s: "scan_entries basePath (x # rest) hThreads =
              Create fullPath # map Join (hThreads @ [fullPath]) @ scan_entries basePath rest []"
            using True Reg ok full by (simp add: x fullPath_def Let_def)
          have r: "in_flight (scan_entries basePath rest []) (n - length hThreads) =
              n - length hThreads
            \<and> peak_in_flight (scan_entries basePath rest []) (n - length hThreads)
                \<le> n - length hThreads + MAX_THREADS + bd"
            using IH [of "[]" "n - length hThreads"] by (simp add: MAX_THREADS_def)
          have f: "in_flight (map Join (hThreads @ [fullPath])) (Suc n) = n - length hThreads"
            by (simp add: in_flight_joins del: map_append)
          have p: "peak_in_flight (map Join (hThreads @ [fullPath])) (Suc n) = Suc n"
            by (rule peak_in_flight_joins)
          have "Suc n \<le> n - length hThreads + MAX_THREADS"
            using full Cons.prems(3) by simp
          then show ?thesis
            using r mono
            by (simp add: s in_flight_append peak_in_flight_append f p del: map_append)
        next
          case more: False
          have s: "scan_entries basePath (x # rest) hThreads =
              Create fullPath # scan_entries basePath rest (hThreads @ [fullPath])"
            using True Reg ok more by (simp add: x fullPath_def Let_def)
          have l: "length (hThreads @ [fullPath]) < MAX_THREADS"
            using more Cons.prems(2) by simp
          have r: "in_flight (scan_entries basePath rest (hThreads @ [fullPath])) (Suc n) =
              n - length hThreads
            \<and> peak_in_flight (scan_entries basePath rest (hThreads @ [fullPath])) (Suc n)
                \<le> n - length hThreads + MAX_THREADS + bd"
            using IH [OF l, of "Suc n"] Cons.prems(3) by simp
          have "n \<le> n - length hThreads + MAX_THREADS + bD"
            using Cons.prems(2) by linarith
          then show ?thesis
            using r mono by (simp add: s)
        qed
      qed
    next
      case (Dir sub)
      define bc where "bc = (MAX_THREADS - 1) * depth nd"
      have s: "scan_entries basePath (x # rest) hThreads =
          snd (wipe_folder_recursive fullPath nd) @ scan_entries basePath rest hThreads"
        using True Dir by (simp add: x fullPath_def Let_def)
      have "sched_ok nd"
        using Cons.prems(1) by (simp add: x)
      then have c: "in_flight (snd (wipe_folder_recursive fullPath nd)) n = n"
        "peak_in_flight (snd (wipe_folder_recursive fullPath nd)) n \<le> n + MAX_THREADS + bc"
        by (simp_all add: sched_ok_def bc_def)
      have "(MAX_THREADS - 1) * Suc (depth nd) \<le> bD"
        unfolding bD_def by (rule mult_le_mono2) (simp add: x Dir)
      then have "MAX_THREADS - 1 + bc \<le> bD"
        by (simp add: bc_def)
      then have "n + MAX_THREADS + bc \<le> n - length hThreads + MAX_THREADS + bD"
        using Cons.prems(2,3) by linarith
      with c same show ?thesis
        by (simp add: s in_flight_append peak_in_flight_append)
    qed
  qed
  then show ?case
    by (simp add: bD_def)
qed

lemma sched_ok_all: "sched_ok nd"
proof (induction nd)
  case (Dir entries)
  have ok: "\<forall>x\<in>set entries. sched_ok (snd x)"
    using Dir by (auto simp: snds.simps)
  show ?case
    unfolding sched_ok_def
  proof (intro allI)
    fix basePath n
    have "in_flight (scan_entries basePath entries []) n = n - length ([] :: string list)
      \<and> peak_in_flight (scan_entries basePath entries []) n
          \<le> n - length ([] :: string list) + MAX_THREADS
            + (MAX_THREADS - 1) * depth_entries entries"
      by (rule scan_entries_bound [OF ok]) (simp_all add: MAX_THREADS_def)
    then show "in_flight (snd (wipe_folder_recursive basePath (Dir entries))) n = n
      \<and> peak_in_flight (snd (wipe_folder_recursive basePath (Dir entries))) n
          \<le> n + MAX_THREADS + (MAX_THREADS - 1) * depth (Dir entries)"
      by simp
  qed
qed (simp_all add: sched_ok_def)

lemma wipe_folder_recursive_bound:
  "peak_in_flight (snd (wipe_folder_recursive basePath nd)) 0
     \<le> MAX_THREADS + (MAX_THREADS - 1) * depth nd"
  using sched_ok_all [of nd, unfolded sched_ok_def, rule_format, of basePath 0] by simp

lemma wipe_folder_recursive_flat:
  "depth nd = 0 \<Longrightarrow> peak_in_flight (snd (wipe_folder_recursive basePath nd)) 0 \<le> MAX_THREADS"
  using wipe_folder_recursive_bound [of basePath nd] by simp

section \<open>The claims\<close>




text \<open>
  C2. On a file that opens and is not empty, the passes \<^verbatim>\<open>wipe_file\<close> makes are, in this
  order and whatever the environment: one for \<^verbatim>\<open>--clear\<close>, three for \<^verbatim>\<open>--purge\<close>,
  seven for \<^verbatim>\<open>--destroy-sw\<close>, each called with its position counted from 1 and with
  the number of passes; the patterns of \<^verbatim>\<open>--destroy-sw\<close> are \<open>0x00\<close>, \<open>0xFF\<close>,
  \<open>0x00\<close>, \<open>0xAA\<close>, \<open>0x55\<close>, \<open>0xAA\<close>, \<open>'R'\<close>.
\<close>

theorem wipe_file_schedule:
  assumes "fopen e w filepath \<noteq> None" and "data w filepath = Some c" and "c \<noteq> []"
  shows "(method = ''--clear'' \<longrightarrow>
       pass_calls (trace (snd (wipe_file e filepath method i w))) =
         pass_calls (trace w) @ [(1, 1, 0x00)])
    \<and> (method = ''--purge'' \<longrightarrow>
       pass_calls (trace (snd (wipe_file e filepath method i w))) =
         pass_calls (trace w) @ [(1, 3, 0x00), (2, 3, 0xFF), (3, 3, 0x52)])
    \<and> (method = ''--destroy-sw'' \<longrightarrow>
       pass_calls (trace (snd (wipe_file e filepath method i w))) =
         pass_calls (trace w) @
         [(1, 7, 0x00), (2, 7, 0xFF), (3, 7, 0x00), (4, 7, 0xAA), (5, 7, 0x55), (6, 7, 0xAA),
          (7, 7, 0x52)])"
proof -
  from assms(1) obtain p where p: "fopen e w filepath = Some p"
    by blast
  show ?thesis
    using assms(3)
    by (simp add: trace_wipe_file [OF p assms(2)] file_passes_def pass_calls_append
        pass_calls_pass_events)
qed

theorem wipe_file_schedule_witness:
  "fopen env_full world_ready ''/tmp/secret.txt'' \<noteq> None
   \<and> data world_ready ''/tmp/secret.txt'' = Some [0x41, 0x42, 0x43]
   \<and> [0x41, 0x42, 0x43 :: byte] \<noteq> []
   \<and> pass_calls (trace (snd (wipe_file env_full ''/tmp/secret.txt'' ''--clear'' 0 world_ready))) =
       [(1, 1, 0x00)]
   \<and> pass_calls (trace (snd (wipe_file env_full ''/tmp/secret.txt'' ''--purge'' 0 world_ready))) =
       [(1, 3, 0x00), (2, 3, 0xFF), (3, 3, 0x52)]
   \<and> pass_calls (trace (snd (wipe_file env_full ''/tmp/secret.txt'' ''--destroy-sw'' 0
        world_ready))) =
       [(1, 7, 0x00), (2, 7, 0xFF), (3, 7, 0x00), (4, 7, 0xAA), (5, 7, 0x55), (6, 7, 0xAA),
        (7, 7, 0x52)]"
proof -
  have o: "fopen env_full world_ready ''/tmp/secret.txt'' \<noteq> None"
    by (simp add: fopen_def world_ready_simps data_world_start env_full_def)
  have d: "data world_ready ''/tmp/secret.txt'' = Some [0x41, 0x42, 0x43]"
    by (simp add: world_ready_simps data_world_start)
  have n: "[0x41, 0x42, 0x43 :: byte] \<noteq> []"
    by simp
  show ?thesis
    using o d
      wipe_file_schedule [OF o d n, of "''--clear''" 0]
      wipe_file_schedule [OF o d n, of "''--purge''" 0]
      wipe_file_schedule [OF o d n, of "''--destroy-sw''" 0]
    by (simp add: world_ready_simps)
qed

text \<open>
  C3, as stated, fails. In the run below, a pass of size 3 with the pattern \<open>0x55\<close>
  makes its one request of 3 bytes, of which the write primitive transfers one: the
  offset after the run is 1, not 3, and the offsets 1 and 2 of the file are not covered.
\<close>

theorem overwrite_pass_simd_short_coverage:
  "trace (overwrite_pass_simd env_short 0 (Some ''/tmp/secret.txt'') 3 1 1 0x55 world_ready) =
     [Pass 1 1 0x55, Seek0, Write 3, Fflush, Fsync]
   \<and> pos (overwrite_pass_simd env_short 0 (Some ''/tmp/secret.txt'') 3 1 1 0x55 world_ready) = 1
   \<and> pos (overwrite_pass_simd env_short 0 (Some ''/tmp/secret.txt'') 3 1 1 0x55 world_ready) \<noteq> 3
   \<and> data world_ready ''/tmp/secret.txt'' = Some [0x41, 0x42, 0x43]
   \<and> data (overwrite_pass_simd env_short 0 (Some ''/tmp/secret.txt'') 3 1 1 0x55 world_ready)
       ''/tmp/secret.txt'' = Some [0x55, 0x42, 0x43]"
  by (simp add: overwrite_pass_simd_def Let_def log_def write_loop_small BUFFER_SIZE_def
      do_write_def transferred_def env_short_def env_full_def target_def store_at_def
      get_pattern_buffer_def promote_def world_ready_simps data_world_start)

text \<open>
  C3, amended. For every size \<open>sz\<close>, one run of \<^verbatim>\<open>overwrite_pass_simd\<close> seeks to
  offset 0 and then issues the write requests \<open>chunk_requests sz\<close> and nothing else
  before the flush: the requested lengths add up to \<open>sz\<close>, each is the minimum of
  \<open>BUFFER_SIZE\<close> and of what is left after the requests before it, so none exceeds
  \<open>BUFFER_SIZE\<close>, and the loop's counter \<^verbatim>\<open>total_written\<close> ends at \<open>sz\<close>; for
  \<open>sz = 0\<close> there is no request. Provided the write primitive transfers every request
  in full, the offset after the run is \<open>sz\<close> and every offset below \<open>sz\<close> of the
  target holds the byte of the pattern buffer for it, the bytes from \<open>sz\<close> on being
  untouched. The pass does not check that proviso.
\<close>

theorem overwrite_pass_simd_covers_size:
  "trace (overwrite_pass_simd e fd f sz pn tp pat w) =
     trace w @ [Pass pn tp pat, Seek0] @ map Write (chunk_requests sz) @
     (if f \<noteq> None then [Fflush, Fsync] else [])
   \<and> sum_list (chunk_requests sz) = sz
   \<and> (\<forall>i<length (chunk_requests sz).
         chunk_requests sz ! i = min BUFFER_SIZE (sz - sum_list (take i (chunk_requests sz))))
   \<and> (\<forall>n\<in>set (chunk_requests sz). 0 < n \<and> n \<le> BUFFER_SIZE)
   \<and> fst (write_loop e fd f buf sz 0 w) = sz
   \<and> (full_writes e \<and> target w fd f = Some p \<and> data w p = Some c
        \<and> pass_buffer e w pat = Some b \<longrightarrow>
        data (overwrite_pass_simd e fd f sz pn tp pat w) p = Some (overwritten b sz c)
        \<and> pos (overwrite_pass_simd e fd f sz pn tp pat w) = sz)"
proof (intro conjI allI ballI impI)
  show "trace (overwrite_pass_simd e fd f sz pn tp pat w) =
     trace w @ [Pass pn tp pat, Seek0] @ map Write (chunk_requests sz) @
     (if f \<noteq> None then [Fflush, Fsync] else [])"
    by (simp add: trace_overwrite_pass_simd pass_events_def)
  show "sum_list (chunk_requests sz) = sz"
    by (rule sum_list_chunk_requests)
  show "fst (write_loop e fd f buf sz 0 w) = sz"
    by (simp add: fst_write_loop)
next
  fix i assume "i < length (chunk_requests sz)"
  then show "chunk_requests sz ! i = min BUFFER_SIZE (sz - sum_list (take i (chunk_requests sz)))"
    by (rule chunk_requests_nth)
next
  fix n assume "n \<in> set (chunk_requests sz)"
  then show "0 < n" "n \<le> BUFFER_SIZE"
    by (simp_all add: chunk_requests_bound)
next
  assume a: "full_writes e \<and> target w fd f = Some p \<and> data w p = Some c
        \<and> pass_buffer e w pat = Some b"
  then have "data (overwrite_pass_simd e fd f sz pn tp pat w) = (data w)(p \<mapsto> overwritten b sz c)"
    by (intro overwrite_pass_simd_full) simp_all
  then show "data (overwrite_pass_simd e fd f sz pn tp pat w) p = Some (overwritten b sz c)"
    by simp
  from a show "pos (overwrite_pass_simd e fd f sz pn tp pat w) = sz"
    by (intro overwrite_pass_simd_full [where p = p and c = c and b = b]) simp_all
qed

theorem overwrite_pass_simd_covers_size_witness:
  "trace (overwrite_pass_simd env_short 0 (Some ''/tmp/secret.txt'') 268435461 2 3 0xFF
      world_ready) =
     [Pass 2 3 0xFF, Seek0, Write 268435456, Write 5, Fflush, Fsync]
   \<and> trace (overwrite_pass_simd env_full 0 (Some ''/tmp/empty'') 0 1 1 0x00 world_ready) =
     [Pass 1 1 0x00, Seek0, Fflush, Fsync]
   \<and> (1 :: nat) < length (chunk_requests 268435461)
   \<and> chunk_requests 268435461 ! 1 =
       min BUFFER_SIZE (268435461 - sum_list (take 1 (chunk_requests 268435461)))
   \<and> (5 :: nat) \<in> set (chunk_requests 268435461) \<and> (5 :: nat) \<le> BUFFER_SIZE
   \<and> full_writes env_full
   \<and> target world_ready 0 (Some ''/tmp/secret.txt'') = Some ''/tmp/secret.txt''
   \<and> data world_ready ''/tmp/secret.txt'' = Some [0x41, 0x42, 0x43]
   \<and> pass_buffer env_full world_ready 0x55 = Some (\<lambda>i. 0x55)
   \<and> data (overwrite_pass_simd env_full 0 (Some ''/tmp/secret.txt'') 3 1 1 0x55 world_ready)
        ''/tmp/secret.txt'' = Some [0x55, 0x55, 0x55]
   \<and> pos (overwrite_pass_simd env_full 0 (Some ''/tmp/secret.txt'') 3 1 1 0x55 world_ready) = 3"
proof -
  have t: "target world_ready 0 (Some ''/tmp/secret.txt'') = Some ''/tmp/secret.txt''"
    by (simp add: target_def)
  have d: "data world_ready ''/tmp/secret.txt'' = Some [0x41, 0x42, 0x43]"
    by (simp add: world_ready_simps data_world_start)
  have b: "pass_buffer env_full world_ready 0x55 = Some (\<lambda>i. 0x55)"
    by (simp add: pass_buffer_def get_pattern_buffer_def promote_def env_full_def
        world_ready_simps)
  have o: "overwritten (\<lambda>i. 0x55) 3 [0x41, 0x42, 0x43] = [0x55, 0x55, 0x55]"
    by (simp add: overwritten_def numeral_3_eq_3)
  have i: "(1 :: nat) < length (chunk_requests 268435461)"
    by (simp add: chunk_requests_two)
  have m: "(5 :: nat) \<in> set (chunk_requests 268435461)"
    by (simp add: chunk_requests_two)
  show ?thesis
    using t d b full_writes_env_full i m
      overwrite_pass_simd_covers_size [of env_short 0 "Some ''/tmp/secret.txt''" 268435461 2 3
        "0xFF" world_ready]
      overwrite_pass_simd_covers_size [of env_full 0 "Some ''/tmp/secret.txt''" 3 1 1 "0x55"
        world_ready None "''/tmp/secret.txt''" "[0x41, 0x42, 0x43]" "\<lambda>i. 0x55"]
      overwrite_pass_simd_covers_size [of env_full 0 "Some ''/tmp/empty''" 0 1 1 "0x00"
        world_ready]
    by (simp add: chunk_requests_two chunk_requests_0 world_ready_simps o BUFFER_SIZE_def)
qed

text \<open>
  C4, as stated, fails. In the run below the write primitive transfers one byte of the
  three requested; the pass makes no further write request, and the last two bytes of
  the file keep their old values.
\<close>

theorem overwrite_pass_simd_short_write:
  "transferred env_short world_ready 3 = 1
   \<and> trace (overwrite_pass_simd env_short 0 (Some ''/tmp/secret.txt'') 3 1 1 0x00 world_ready) =
       [Pass 1 1 0x00, Seek0, Write 3, Fflush, Fsync]
   \<and> data (overwrite_pass_simd env_short 0 (Some ''/tmp/secret.txt'') 3 1 1 0x00 world_ready)
       ''/tmp/secret.txt'' = Some [0x00, 0x42, 0x43]
   \<and> pos (overwrite_pass_simd env_short 0 (Some ''/tmp/secret.txt'') 3 1 1 0x00 world_ready) = 1"
  by (simp add: overwrite_pass_simd_def Let_def log_def write_loop_small BUFFER_SIZE_def
      do_write_def transferred_def env_short_def env_full_def target_def store_at_def
      get_pattern_buffer_def promote_def world_ready_simps data_world_start)

text \<open>
  C4, amended. A pass does not read what the write primitive reports: whatever the
  reports are (short counts or errors), the pass makes the same calls, one write request
  per chunk and none reissued, its counter \<^verbatim>\<open>total_written\<close> advances by the requested
  lengths up to the size, and it returns to its caller without a result.
\<close>

theorem overwrite_pass_simd_ignores_write_results:
  "trace (overwrite_pass_simd (e\<lparr>write_result := r\<rparr>) fd f sz pn tp pat w) =
     trace (overwrite_pass_simd e fd f sz pn tp pat w)
   \<and> nwrites (overwrite_pass_simd (e\<lparr>write_result := r\<rparr>) fd f sz pn tp pat w) =
     nwrites w + length (chunk_requests sz)
   \<and> fst (write_loop (e\<lparr>write_result := r\<rparr>) fd f b sz 0 w) = sz"
proof (intro conjI)
  have "trace (overwrite_pass_simd (e\<lparr>write_result := r\<rparr>) fd f sz pn tp pat w) =
      trace w @ pass_events f sz pn tp pat"
    by (rule trace_overwrite_pass_simd)
  also have "\<dots> = trace (overwrite_pass_simd e fd f sz pn tp pat w)"
    by (rule trace_overwrite_pass_simd [symmetric])
  finally show "trace (overwrite_pass_simd (e\<lparr>write_result := r\<rparr>) fd f sz pn tp pat w) =
      trace (overwrite_pass_simd e fd f sz pn tp pat w)" .
  show "nwrites (overwrite_pass_simd (e\<lparr>write_result := r\<rparr>) fd f sz pn tp pat w) =
      nwrites w + length (chunk_requests sz)"
    by (rule nwrites_overwrite_pass_simd)
  show "fst (write_loop (e\<lparr>write_result := r\<rparr>) fd f b sz 0 w) = sz"
    by (rule fst_write_loop) simp
qed

text \<open>
  C5: the code at the method \<^verbatim>\<open>--turbo\<close>, which the usage text of \<^verbatim>\<open>main\<close> lists
  and no branch handles. On a file of three bytes \<^verbatim>\<open>wipe_file\<close> makes no pass, removes
  the file and returns 0.
\<close>

theorem wipe_file_unknown_method:
  "trace (snd (wipe_file env_full ''/tmp/secret.txt'' ''--turbo'' 0 world_ready)) =
     [Fclose, Remove ''/tmp/secret.txt'']
   \<and> fst (wipe_file env_full ''/tmp/secret.txt'' ''--turbo'' 0 world_ready) = 0
   \<and> data (snd (wipe_file env_full ''/tmp/secret.txt'' ''--turbo'' 0 world_ready))
       ''/tmp/secret.txt'' = None"
proof -
  have o: "fopen env_full world_ready ''/tmp/secret.txt'' = Some ''/tmp/secret.txt''"
    by (simp add: fopen_secret env_full_def)
  have d: "data world_ready ''/tmp/secret.txt'' = Some [0x41, 0x42, 0x43]"
    by (simp add: world_ready_simps data_world_start)
  have r: "remove_ok env_full ''/tmp/secret.txt''"
    by (simp add: env_full_def)
  show ?thesis
    using trace_wipe_file [OF o d, of "''--turbo''" 0] result_wipe_file [OF o, of "''--turbo''" 0] r
    by (simp add: file_passes_def world_ready_simps)
qed

text \<open>
  C6: the code on a directory that lists 63 files and then a subdirectory with two
  files. The 63 threads of the outer call are not joined before the recursive call
  creates two more: 65 tasks are in flight. (The batch of one call never exceeds
  \<open>MAX_THREADS\<close>; over a tree the bound is the one of \<open>wipe_folder_recursive_bound\<close>.)
\<close>

theorem wipe_folder_recursive_65_in_flight:
  "peak_in_flight (snd (wipe_folder_recursive ''/r'' tree_65)) 0 = 65"
  by code_simp

text \<open>
  C7: the code on a raw descriptor (\<open>f\<close> is \<^verbatim>\<open>NULL\<close>). The pass seeks and writes
  through the descriptor and returns without any flush or sync call.
\<close>

theorem overwrite_pass_simd_raw_no_flush:
  "trace (overwrite_pass_simd env_full 3 None 4 1 1 0x00
      (world_ready\<lparr>fdtab := [3 \<mapsto> ''/dev/sdb'']\<rparr>)) =
     [Pass 1 1 0x00, Seek0, Write 4]
   \<and> data (overwrite_pass_simd env_full 3 None 4 1 1 0x00
      (world_ready\<lparr>fdtab := [3 \<mapsto> ''/dev/sdb'']\<rparr>)) ''/dev/sdb'' = Some [0, 0, 0, 0]"
  by (simp add: overwrite_pass_simd_def Let_def log_def write_loop_small BUFFER_SIZE_def
      do_write_def transferred_def env_full_def target_def store_at_def
      get_pattern_buffer_def promote_def world_ready_simps data_world_start upt_rec)

text \<open>
  C8: the code of \<^verbatim>\<open>wipe_disk_raw\<close> at the method \<^verbatim>\<open>--destroy-sw\<close>. Whatever the
  function \<^verbatim>\<open>overwrite_pass\<close> is, it is not called: the device is opened and closed,
  its contents are unchanged, and the result is 0.
\<close>

theorem wipe_disk_raw_destroy_no_pass:
  "fst (wipe_disk_raw overwrite_pass env_full ''/dev/sdb'' ''--destroy-sw'' world_ready) = 0
   \<and> trace (snd (wipe_disk_raw overwrite_pass env_full ''/dev/sdb'' ''--destroy-sw'' world_ready))
      = [CloseFd 3]
   \<and> data (snd (wipe_disk_raw overwrite_pass env_full ''/dev/sdb'' ''--destroy-sw''
        world_ready)) ''/dev/sdb'' = Some [1, 2, 3, 4]"
  by (simp add: wipe_disk_raw_def Let_def env_full_def close_fd_def log_def world_ready_simps
      data_world_start)

text \<open>
  C9. For every file whose size is zero when it is opened, \<^verbatim>\<open>wipe_file\<close> makes no
  overwrite pass (and no write at all): it closes the file and calls \<^verbatim>\<open>remove\<close>,
  whatever the method; it returns 0 when the removal succeeds, and the file is then gone.
\<close>

theorem wipe_file_empty:
  assumes "fopen e w filepath \<noteq> None" and "data w filepath = Some []"
  shows "trace (snd (wipe_file e filepath method i w)) = trace w @ [Fclose, Remove filepath]
    \<and> fst (wipe_file e filepath method i w) = (if remove_ok e filepath then 0 else 1)
    \<and> (remove_ok e filepath \<longrightarrow> data (snd (wipe_file e filepath method i w)) filepath = None)"
proof -
  from assms(1) obtain p where p: "fopen e w filepath = Some p"
    by blast
  show ?thesis
    using trace_wipe_file [OF p assms(2), of "method" i] result_wipe_file [OF p, of "method" i]
    by simp
qed

theorem wipe_file_empty_witness:
  "fopen env_full world_ready ''/tmp/empty'' \<noteq> None
   \<and> data world_ready ''/tmp/empty'' = Some []
   \<and> trace (snd (wipe_file env_full ''/tmp/empty'' ''--destroy-sw'' 0 world_ready)) =
       [Fclose, Remove ''/tmp/empty'']
   \<and> fst (wipe_file env_full ''/tmp/empty'' ''--destroy-sw'' 0 world_ready) = 0
   \<and> data (snd (wipe_file env_full ''/tmp/empty'' ''--destroy-sw'' 0 world_ready))
       ''/tmp/empty'' = None"
proof -
  have o: "fopen env_full world_ready ''/tmp/empty'' \<noteq> None"
    by (simp add: fopen_def world_ready_simps data_world_start env_full_def)
  have d: "data world_ready ''/tmp/empty'' = Some []"
    by (simp add: world_ready_simps data_world_start)
  have r: "remove_ok env_full ''/tmp/empty''"
    by (simp add: env_full_def)
  show ?thesis
    using o d r wipe_file_empty [OF o d, of "''--destroy-sw''" 0]
    by (simp add: world_ready_simps)
qed

text \<open>
  C10. For every pattern byte other than \<open>0x00\<close>, \<open>0xFF\<close>, \<open>0xAA\<close>, \<open>0x55\<close> and
  \<open>'R'\<close>, whether \<^verbatim>\<open>char\<close> is signed or not, \<^verbatim>\<open>get_pattern_buffer\<close> returns the
  zero buffer: the lookup has no failure result, after \<^verbatim>\<open>init_buffers\<close> the buffer is
  not \<^verbatim>\<open>NULL\<close> and holds zero bytes, and a pass with such a pattern whose writes are
  transferred in full leaves zero bytes at every offset below \<open>sz\<close> of the target.
\<close>

theorem get_pattern_buffer_fallback:
  assumes "pattern \<notin> {0x00, 0xFF, 0xAA, 0x55, 0x52}"
  shows "get_pattern_buffer e w pattern = g_zero_buffer w
    \<and> (g_zero_buffer w = None \<longrightarrow>
         get_pattern_buffer e (init_buffers e w) pattern = Some (\<lambda>i. 0))
    \<and> (g_zero_buffer w = Some (\<lambda>i. 0) \<and> full_writes e \<and> target w fd f = Some p
         \<and> data w p = Some c \<longrightarrow>
         data (overwrite_pass_simd e fd f sz pn tp pattern w) p = Some (replicate sz 0 @ drop sz c))"
proof (intro conjI impI)
  show "get_pattern_buffer e w pattern = g_zero_buffer w"
    using assms by (rule get_pattern_buffer_unknown)
next
  assume "g_zero_buffer w = None"
  then show "get_pattern_buffer e (init_buffers e w) pattern = Some (\<lambda>i. 0)"
    by (simp add: get_pattern_buffer_unknown [OF assms] init_buffers_def)
next
  assume a: "g_zero_buffer w = Some (\<lambda>i. 0) \<and> full_writes e \<and> target w fd f = Some p
         \<and> data w p = Some c"
  have "pattern \<noteq> 0x52"
    using assms by auto
  then have b: "pass_buffer e w pattern = Some (\<lambda>i. 0)"
    using a by (simp add: pass_buffer_def get_pattern_buffer_unknown [OF assms])
  have "data (overwrite_pass_simd e fd f sz pn tp pattern w) =
      (data w)(p \<mapsto> overwritten (\<lambda>i. 0) sz c)"
    using a b by (intro overwrite_pass_simd_full) simp_all
  then show "data (overwrite_pass_simd e fd f sz pn tp pattern w) p =
      Some (replicate sz 0 @ drop sz c)"
    by (simp add: overwritten_def map_replicate_const)
qed

theorem get_pattern_buffer_fallback_witness:
  "(0x07 :: byte) \<notin> {0x00, 0xFF, 0xAA, 0x55, 0x52}
   \<and> get_pattern_buffer env_full world_ready 0x07 = Some (\<lambda>i. 0)
   \<and> g_zero_buffer world_start = None
   \<and> get_pattern_buffer env_full (init_buffers env_full world_start) 0x07 = Some (\<lambda>i. 0)
   \<and> g_zero_buffer world_ready = Some (\<lambda>i. 0) \<and> full_writes env_full
   \<and> target world_ready 0 (Some ''/tmp/secret.txt'') = Some ''/tmp/secret.txt''
   \<and> data world_ready ''/tmp/secret.txt'' = Some [0x41, 0x42, 0x43]
   \<and> data (overwrite_pass_simd env_full 0 (Some ''/tmp/secret.txt'') 3 1 1 0x07 world_ready)
        ''/tmp/secret.txt'' = Some [0, 0, 0]"
proof -
  have h: "(0x07 :: byte) \<notin> {0x00, 0xFF, 0xAA, 0x55, 0x52}"
    by simp
  have z: "g_zero_buffer world_start = None"
    by (simp add: world_start_def)
  have t: "target world_ready 0 (Some ''/tmp/secret.txt'') = Some ''/tmp/secret.txt''"
    by (simp add: target_def)
  have d: "data world_ready ''/tmp/secret.txt'' = Some [0x41, 0x42, 0x43]"
    by (simp add: world_ready_simps data_world_start)
  have r: "replicate 3 (0 :: byte) = [0, 0, 0]"
    by (simp add: numeral_3_eq_3)
  show ?thesis
    using h z t d full_writes_env_full
      get_pattern_buffer_fallback [OF h, of env_full world_ready 0 "Some ''/tmp/secret.txt''"
        "''/tmp/secret.txt''" "[0x41, 0x42, 0x43]" 3 1 1]
      get_pattern_buffer_fallback [OF h, of env_full world_start]
    by (simp add: world_ready_simps r)
qed

end
